theory Spec2Isabelle
  imports
    Complex_Main
    "HOL-Library.AList"
    "HOL-Library.Sublist"
    "HOL-Library.Char_ord"
    "HOL-Library.Option_ord"
    "HOL-Library.List_Lexorder"
begin

section \<open>Data model of the dispatch scheduler\<close>

text \<open>
  The embedding follows \<^verbatim>\<open>llumnix/global_scheduler/dispatch_scheduler.py\<close> and
  \<^verbatim>\<open>llumnix/internal_config.py\<close>.

  \<^item> Python sets of instance ids are HOL sets of strings; \<^verbatim>\<open>len\<close> is \<open>card\<close>.
  \<^item> Python dictionaries keep their insertion order, and \<^verbatim>\<open>min\<close>, \<^verbatim>\<open>max\<close> and
    \<^verbatim>\<open>values()\<close> iterate in that order, so a dictionary is an association list.
    \<open>AList.update\<close> is \<^verbatim>\<open>d[k] = v\<close> (in place for a known key, appended for
    a new one) and \<open>AList.delete\<close> is \<^verbatim>\<open>del d[k]\<close>.
  \<^item> Every exception the code can raise is a value of \<open>error\<close>. A method that can
    raise returns its outcome together with the state the object is left in,
    because an exception does not undo the assignments made before it.
  \<^item> Logging has no effect on the state and is left out.
  \<^item> Strings are lists of 8-bit characters, ordered lexicographically by character
    code as Python orders \<^verbatim>\<open>str\<close>.
\<close>

datatype error = KeyError | StopIteration | ValueError | IndexError | ZeroDivisionError | TypeError

text \<open>
  Modelled from the spec: \<^verbatim>\<open>InstanceInfo\<close> (module \<^verbatim>\<open>llumnix.instance_info\<close> is
  not among the sources). The spec's Instance Load Record is
  \<open>{instance_id, load_score, queue_depth}\<close>; the fields carry the names under which the
  scheduler reads them. The load score is a float in the source; only its order is used,
  so it is a real number here (a NaN score has no counterpart).
\<close>

record InstanceInfo =
  instance_id :: string
  num_waiting_requests :: int
  instance_load_dispatch_scale :: real

datatype DispatchPolicy = Flood | Balanced | Load | Queue | RoundRobin

text \<open>
  The scheduler object. \<open>prev_instance_idx\<close> is the cursor of the policy object (class
  attribute \<open>-1\<close> of \<^verbatim>\<open>RoundRobin\<close>); \<open>sorted_instance_infos\<close> is \<^verbatim>\<open>None\<close> until the
  first sort. The fields \<^verbatim>\<open>instance_load_calculator\<close> and \<^verbatim>\<open>instance_ptr\<close> are
  stored by the constructors and never read, and are left out.
\<close>

record DispatchScheduler =
  dispatch_policy :: DispatchPolicy
  prev_instance_idx :: int
  num_instances :: int
  instance_id_set :: "string set"
  available_dispatch_instance_set :: "string set"
  num_dispatch_instances :: int
  instance_info :: "(string \<times> InstanceInfo) list"
  sorted_instance_infos :: "InstanceInfo list option"
  num_requests :: int
  instance_num_requests :: "(string \<times> int) list"

section \<open>Construction\<close>

definition get_policy :: "string \<Rightarrow> error + DispatchPolicy" where
  "get_policy policy_name =
     (if policy_name = ''flood'' then Inr Flood
      else if policy_name = ''balanced'' then Inr Balanced
      else if policy_name = ''load'' then Inr Load
      else if policy_name = ''queue'' then Inr Queue
      else if policy_name = ''rr'' then Inr RoundRobin
      else Inl KeyError)"

definition new_scheduler :: "DispatchPolicy \<Rightarrow> int \<Rightarrow> DispatchScheduler" where
  "new_scheduler p c =
     \<lparr> dispatch_policy = p,
       prev_instance_idx = - 1,
       num_instances = 0,
       instance_id_set = {},
       available_dispatch_instance_set = {},
       num_dispatch_instances = c,
       instance_info = [],
       sorted_instance_infos = None,
       num_requests = 0,
       instance_num_requests = [] \<rparr>"

definition DispatchScheduler_init :: "string \<Rightarrow> int \<Rightarrow> error + DispatchScheduler" where
  "DispatchScheduler_init policy_name c =
     (case get_policy policy_name of
        Inl e \<Rightarrow> Inl e
      | Inr p \<Rightarrow> Inr (new_scheduler p c))"

section \<open>Membership operations\<close>

definition update_instance_infos ::
  "(string \<times> InstanceInfo) list \<Rightarrow> DispatchScheduler \<Rightarrow> DispatchScheduler" where
  "update_instance_infos infos s = s\<lparr>instance_info := infos\<rparr>"

text \<open>The test \<^verbatim>\<open>"decode" not in instance_id\<close> is a substring test.\<close>

definition add_instance :: "string \<Rightarrow> DispatchScheduler \<Rightarrow> DispatchScheduler" where
  "add_instance i s =
     (let s1 = s\<lparr>instance_id_set := insert i (instance_id_set s)\<rparr>;
          s2 = s1\<lparr>num_instances := int (card (instance_id_set s1))\<rparr>
      in if \<not> sublist ''decode'' i then
           if num_dispatch_instances s2 \<le> 0 \<or>
              (num_dispatch_instances s2 > 0 \<and>
               int (card (available_dispatch_instance_set s2)) < num_dispatch_instances s2)
           then s2\<lparr>available_dispatch_instance_set :=
                      insert i (available_dispatch_instance_set s2),
                    instance_num_requests :=
                      AList.update i 0 (instance_num_requests s2)\<rparr>
           else s2
         else s2)"

text \<open>
  \<^verbatim>\<open>next(iter(S))\<close> yields the first element of the set in its iteration order, which
  Python does not specify. The order is the parameter \<open>nxt\<close>: \<open>nxt S\<close> is the element a
  non-empty \<open>S\<close> yields first. On the empty set \<^verbatim>\<open>next\<close> raises \<^verbatim>\<open>StopIteration\<close>.
  \<^verbatim>\<open>set.remove\<close> raises \<^verbatim>\<open>KeyError\<close> on a missing element, before anything is changed.
\<close>

definition remove_instance ::
  "(string set \<Rightarrow> string) \<Rightarrow> string \<Rightarrow> DispatchScheduler \<Rightarrow> (error + unit) \<times> DispatchScheduler" where
  "remove_instance nxt i s =
     (if i \<notin> instance_id_set s then (Inl KeyError, s)
      else
        let s1 = s\<lparr>instance_id_set := instance_id_set s - {i}\<rparr>;
            s2 = s1\<lparr>num_instances := int (card (instance_id_set s1))\<rparr>;
            s3 = (if i \<in> fst ` set (instance_num_requests s2)
                  then s2\<lparr>instance_num_requests := AList.delete i (instance_num_requests s2)\<rparr>
                  else s2)
        in if i \<in> available_dispatch_instance_set s3 then
             let s4 = s3\<lparr>available_dispatch_instance_set :=
                           available_dispatch_instance_set s3 - {i}\<rparr>
             in if num_instances s4 \<ge> num_dispatch_instances s4 then
                  let free = instance_id_set s4 - available_dispatch_instance_set s4
                  in if free = {} then (Inl StopIteration, s4)
                     else (Inr (), s4\<lparr>available_dispatch_instance_set :=
                                        insert (nxt free) (available_dispatch_instance_set s4)\<rparr>)
                else (Inr (), s4)
           else (Inr (), s3))"

definition set_iter_ok :: "(string set \<Rightarrow> string) \<Rightarrow> bool" where
  "set_iter_ok nxt \<longleftrightarrow> (\<forall>S. finite S \<longrightarrow> S \<noteq> {} \<longrightarrow> nxt S \<in> S)"

section \<open>Sorting the load snapshot\<close>

text \<open>
  \<^verbatim>\<open>sorted(xs, key=k, reverse=r)\<close> is a stable sort. \<open>sort_key\<close> is a stable insertion
  sort in ascending order; with \<^verbatim>\<open>reverse=True\<close> Python sorts in descending order and
  still keeps equal keys in their original order.
\<close>

definition py_sorted :: "('a \<Rightarrow> 'k::linorder) \<Rightarrow> bool \<Rightarrow> 'a list \<Rightarrow> 'a list" where
  "py_sorted key reverse xs = (if reverse then rev (sort_key key (rev xs)) else sort_key key xs)"

definition sort_instance_infos :: "bool \<Rightarrow> DispatchScheduler \<Rightarrow> DispatchScheduler" where
  "sort_instance_infos descending s =
     (let instance_infos = map snd (instance_info s);
          available_instance_infos =
            filter (\<lambda>info. instance_id info \<in> available_dispatch_instance_set s) instance_infos
      in s\<lparr>sorted_instance_infos :=
             Some (if dispatch_policy s = Queue
                   then py_sorted num_waiting_requests descending available_instance_infos
                   else py_sorted instance_load_dispatch_scale descending available_instance_infos)\<rparr>)"

section \<open>Dispatch policies\<close>

text \<open>
  \<^verbatim>\<open>min(iterable, key=f)\<close> and \<^verbatim>\<open>max(iterable, key=f)\<close> return the first element whose
  key is minimal (maximal), and raise \<^verbatim>\<open>ValueError\<close> on an empty iterable.
\<close>

fun py_min :: "('a \<Rightarrow> 'k::linorder) \<Rightarrow> 'a list \<Rightarrow> error + 'a" where
  "py_min key [] = Inl ValueError"
| "py_min key (x # xs) = Inr (foldl (\<lambda>best y. if key y < key best then y else best) x xs)"

fun py_max :: "('a \<Rightarrow> 'k::linorder) \<Rightarrow> 'a list \<Rightarrow> error + 'a" where
  "py_max key [] = Inl ValueError"
| "py_max key (x # xs) = Inr (foldl (\<lambda>best y. if key y > key best then y else best) x xs)"

text \<open>
  Iterating a dictionary yields its keys, and the key function is the dictionary's
  \<^verbatim>\<open>get\<close>, which is \<open>map_of\<close>: it is only ever applied to keys of the dictionary, so
  the order of \<open>None\<close> among the options plays no part.
\<close>

definition Flood_dispatch :: "(string \<times> int) list \<Rightarrow> InstanceInfo list option \<Rightarrow> error + string" where
  "Flood_dispatch counts sorted_infos = py_max (map_of counts) (map fst counts)"

definition Balanced_dispatch :: "(string \<times> int) list \<Rightarrow> InstanceInfo list option \<Rightarrow> error + string" where
  "Balanced_dispatch counts sorted_infos = py_min (map_of counts) (map fst counts)"

definition Load_dispatch :: "(string \<times> int) list \<Rightarrow> InstanceInfo list option \<Rightarrow> error + string" where
  "Load_dispatch counts sorted_infos =
     (case sorted_infos of
        None \<Rightarrow> Inl TypeError
      | Some [] \<Rightarrow> Inl IndexError
      | Some (info # rest) \<Rightarrow> Inr (instance_id info))"

text \<open>
  \<^verbatim>\<open>random.choice\<close> draws an index below the length of the list; the draw is the
  parameter \<open>r\<close>, reduced modulo the length.
\<close>

definition random_choice :: "nat \<Rightarrow> 'a list \<Rightarrow> error + 'a" where
  "random_choice r xs = (if xs = [] then Inl IndexError else Inr (xs ! (r mod length xs)))"

definition Queue_dispatch ::
  "nat \<Rightarrow> (string \<times> int) list \<Rightarrow> InstanceInfo list option \<Rightarrow> error + string" where
  "Queue_dispatch r counts sorted_infos =
     (case sorted_infos of
        None \<Rightarrow> Inl TypeError
      | Some [] \<Rightarrow> Inl IndexError
      | Some (info # rest) \<Rightarrow>
          (let min_queue_size = num_waiting_requests info;
               instance_id_list =
                 map instance_id
                   (filter (\<lambda>x. num_waiting_requests x = min_queue_size) (info # rest))
           in random_choice r instance_id_list))"

text \<open>
  The round-robin policy returns the chosen id and the new cursor. Python's \<^verbatim>\<open>%\<close> raises
  \<^verbatim>\<open>ZeroDivisionError\<close> for a zero divisor; for a positive divisor it is \<open>mod\<close> on
  the integers, so the index is within the list.
\<close>

definition RoundRobin_dispatch ::
  "int \<Rightarrow> (string \<times> int) list \<Rightarrow> InstanceInfo list option \<Rightarrow> (error + string) \<times> int" where
  "RoundRobin_dispatch prev counts sorted_infos =
     (let all_instance_ids = sort (map fst counts)
      in if length all_instance_ids = 0 then (Inl ZeroDivisionError, prev)
         else
           let cur_instance_idx = (prev + 1) mod int (length all_instance_ids)
           in (Inr (all_instance_ids ! nat cur_instance_idx), cur_instance_idx))"

definition policy_dispatch ::
  "nat \<Rightarrow> DispatchPolicy \<Rightarrow> int \<Rightarrow> (string \<times> int) list \<Rightarrow> InstanceInfo list option
     \<Rightarrow> (error + string) \<times> int" where
  "policy_dispatch r p prev counts sorted_infos =
     (case p of
        Flood \<Rightarrow> (Flood_dispatch counts sorted_infos, prev)
      | Balanced \<Rightarrow> (Balanced_dispatch counts sorted_infos, prev)
      | Load \<Rightarrow> (Load_dispatch counts sorted_infos, prev)
      | Queue \<Rightarrow> (Queue_dispatch r counts sorted_infos, prev)
      | RoundRobin \<Rightarrow> RoundRobin_dispatch prev counts sorted_infos)"

section \<open>Dispatch\<close>

text \<open>
  \<^verbatim>\<open>self.instance_num_requests[id] += 1\<close> reads the entry first and raises
  \<^verbatim>\<open>KeyError\<close> when the id has none. The counter of requests and the sorted view
  keep the values they got before the exception.
\<close>

definition dispatch :: "nat \<Rightarrow> DispatchScheduler \<Rightarrow> (error + string) \<times> DispatchScheduler" where
  "dispatch r s =
     (let s1 = s\<lparr>num_requests := num_requests s + 1\<rparr>;
          s2 = (if dispatch_policy s1 = Load \<or> dispatch_policy s1 = Queue
                then sort_instance_infos False s1 else s1)
      in case policy_dispatch r (dispatch_policy s2) (prev_instance_idx s2)
                (instance_num_requests s2) (sorted_instance_infos s2) of
           (Inl e, idx) \<Rightarrow> (Inl e, s2\<lparr>prev_instance_idx := idx\<rparr>)
         | (Inr dispatch_instance_id, idx) \<Rightarrow>
             (let s3 = s2\<lparr>prev_instance_idx := idx\<rparr>
              in case map_of (instance_num_requests s3) dispatch_instance_id of
                   None \<Rightarrow> (Inl KeyError, s3)
                 | Some n \<Rightarrow>
                     (Inr dispatch_instance_id,
                      s3\<lparr>instance_num_requests :=
                           AList.update dispatch_instance_id (n + 1) (instance_num_requests s3)\<rparr>)))"

section \<open>Sequences of calls\<close>

text \<open>
  A call of one of the four operations, with the choices the run leaves open: the
  iteration order of the set for \<open>remove_instance\<close>, the random draw for \<open>dispatch\<close>.
  A call that raises leaves the scheduler in the state the exception found it in, and
  the caller may go on calling.
\<close>

datatype call =
    Add string
  | Remove "string set \<Rightarrow> string" string
  | Dispatch nat
  | Update "(string \<times> InstanceInfo) list"

fun step :: "call \<Rightarrow> DispatchScheduler \<Rightarrow> DispatchScheduler" where
  "step (Add i) s = add_instance i s"
| "step (Remove nxt i) s = snd (remove_instance nxt i s)"
| "step (Dispatch r) s = snd (dispatch r s)"
| "step (Update infos) s = update_instance_infos infos s"

fun run :: "call list \<Rightarrow> DispatchScheduler \<Rightarrow> DispatchScheduler" where
  "run [] s = s"
| "run (c # cs) s = run cs (step c s)"

fun call_ok :: "call \<Rightarrow> bool" where
  "call_ok (Remove nxt i) = set_iter_ok nxt"
| "call_ok c = True"

text \<open>Successive dispatch calls, one random draw each, with the outcome of every call.\<close>

fun dispatch_seq :: "nat list \<Rightarrow> DispatchScheduler \<Rightarrow> (error + string) list \<times> DispatchScheduler" where
  "dispatch_seq [] s = ([], s)"
| "dispatch_seq (r # rs) s =
     (case dispatch r s of
        (out, s') \<Rightarrow> (case dispatch_seq rs s' of (outs, s'') \<Rightarrow> (out # outs, s'')))"

section \<open>Global scheduler configuration\<close>

record GlobalSchedulerConfig =
  cfg_initial_instances :: int
  cfg_load_metric :: string
  cfg_dispatch_policy :: string
  cfg_pair_migration_policy :: string
  cfg_migrate_out_load_threshold :: real
  cfg_enable_defrag :: bool
  cfg_scaling_policy :: string
  cfg_scale_up_threshold :: real
  cfg_scale_down_threshold :: real
  cfg_enable_pd_disagg :: bool
  cfg_num_dispatch_instances :: int
  cfg_migration_backend :: string

text \<open>
  The constructor's arguments in the order of the source's signature. The fields carry the
  prefix \<open>cfg_\<close> because several names are fields of the scheduler too.
\<close>

definition GlobalSchedulerConfig_init ::
  "int \<Rightarrow> string \<Rightarrow> string \<Rightarrow> int \<Rightarrow> string \<Rightarrow> real \<Rightarrow> bool \<Rightarrow> string \<Rightarrow> real \<Rightarrow> real \<Rightarrow> bool \<Rightarrow> string
     \<Rightarrow> GlobalSchedulerConfig" where
  "GlobalSchedulerConfig_init initial_instances load_metric dispatch_policy_name
       num_dispatch_instances_arg pair_migration_policy migrate_out_threshold enable_defrag
       scaling_policy scale_up_threshold scale_down_threshold enable_pd_disagg migration_backend =
     \<lparr> cfg_initial_instances = initial_instances,
       cfg_load_metric = load_metric,
       cfg_dispatch_policy = dispatch_policy_name,
       cfg_pair_migration_policy = pair_migration_policy,
       cfg_migrate_out_load_threshold = migrate_out_threshold * (- 1),
       cfg_enable_defrag = enable_defrag,
       cfg_scaling_policy = scaling_policy,
       cfg_scale_up_threshold = scale_up_threshold * (- 1),
       cfg_scale_down_threshold = scale_down_threshold * (- 1),
       cfg_enable_pd_disagg = enable_pd_disagg,
       cfg_num_dispatch_instances = num_dispatch_instances_arg,
       cfg_migration_backend = migration_backend \<rparr>"

section \<open>Well-formed scheduler states\<close>

text \<open>
  The facts that hold of every state the four operations can reach from a fresh scheduler:
  the sets are finite, every dispatchable instance is registered, every counter belongs
  to a dispatchable instance, the counters are a dictionary (no key twice), no id
  containing \<open>decode\<close> has a counter, and an enforced capacity bounds the dispatchable set.
\<close>

definition sched_inv :: "DispatchScheduler \<Rightarrow> bool" where
  "sched_inv s \<longleftrightarrow>
     finite (instance_id_set s) \<and>
     available_dispatch_instance_set s \<subseteq> instance_id_set s \<and>
     dom (map_of (instance_num_requests s)) \<subseteq> available_dispatch_instance_set s \<and>
     distinct (map fst (instance_num_requests s)) \<and>
     (\<forall>k. sublist ''decode'' k \<longrightarrow> map_of (instance_num_requests s) k = None) \<and>
     (0 < num_dispatch_instances s \<longrightarrow>
        int (card (available_dispatch_instance_set s)) \<le> num_dispatch_instances s)"

text \<open>All counters lie between \<open>m\<close> and \<open>m + 1\<close>.\<close>

definition within_one :: "int \<Rightarrow> (string \<times> int) list \<Rightarrow> bool" where
  "within_one m d \<longleftrightarrow> (\<forall>k n. map_of d k = Some n \<longrightarrow> m \<le> n \<and> n \<le> m + 1)"

section \<open>The invariant is kept by every operation\<close>

lemma sched_inv_new: "sched_inv (new_scheduler p c)"
  by (simp add: sched_inv_def new_scheduler_def)

lemma add_instance_frame:
  "num_dispatch_instances (add_instance i s) = num_dispatch_instances s"
  "dispatch_policy (add_instance i s) = dispatch_policy s"
  by (simp_all add: add_instance_def Let_def)

lemma sched_inv_add:
  assumes "sched_inv s"
  shows "sched_inv (add_instance i s)"
proof -
  have fin: "finite (available_dispatch_instance_set s)"
    using assms by (auto simp: sched_inv_def intro: finite_subset)
  have "card (insert i (available_dispatch_instance_set s)) \<le> Suc (card (available_dispatch_instance_set s))"
    using fin by (simp add: card_insert_if)
  then show ?thesis
    using assms
    by (auto simp: sched_inv_def add_instance_def Let_def AList.update_conv' AList.distinct_update)
qed

lemma remove_instance_frame:
  "num_dispatch_instances (snd (remove_instance nxt i s)) = num_dispatch_instances s"
  "dispatch_policy (snd (remove_instance nxt i s)) = dispatch_policy s"
  "instance_num_requests (snd (remove_instance nxt i s)) =
     (if i \<in> instance_id_set s then AList.delete i (instance_num_requests s) else instance_num_requests s)"
  by (simp_all add: remove_instance_def Let_def)

lemma remove_instance_sets:
  assumes "i \<in> instance_id_set s"
  shows "instance_id_set (snd (remove_instance nxt i s)) = instance_id_set s - {i}"
    and "available_dispatch_instance_set (snd (remove_instance nxt i s)) =
           (if i \<in> available_dispatch_instance_set s
               \<and> num_dispatch_instances s \<le> int (card (instance_id_set s - {i}))
               \<and> instance_id_set s - {i} - (available_dispatch_instance_set s - {i}) \<noteq> {}
            then insert (nxt (instance_id_set s - {i} - (available_dispatch_instance_set s - {i})))
                   (available_dispatch_instance_set s - {i})
            else available_dispatch_instance_set s - {i})"
  using assms by (simp_all add: remove_instance_def Let_def)

lemma set_iter_okD: "set_iter_ok nxt \<Longrightarrow> finite S \<Longrightarrow> S \<noteq> {} \<Longrightarrow> nxt S \<in> S"
  by (simp add: set_iter_ok_def)

lemma sched_inv_remove:
  assumes inv: "sched_inv s" and ok: "set_iter_ok nxt"
  shows "sched_inv (snd (remove_instance nxt i s))"
proof (cases "i \<in> instance_id_set s")
  case False
  then show ?thesis using inv by (simp add: remove_instance_def)
next
  case True
  define A where "A = instance_id_set s - {i}"
  define E where "E = available_dispatch_instance_set s - {i}"
  define s' where "s' = snd (remove_instance nxt i s)"
  have finA: "finite (instance_id_set s)" and sub: "available_dispatch_instance_set s \<subseteq> instance_id_set s"
    and keys: "dom (map_of (instance_num_requests s)) \<subseteq> available_dispatch_instance_set s"
    and dist: "distinct (map fst (instance_num_requests s))"
    and dec: "\<forall>k. sublist ''decode'' k \<longrightarrow> map_of (instance_num_requests s) k = None"
    and cap: "0 < num_dispatch_instances s \<longrightarrow>
        int (card (available_dispatch_instance_set s)) \<le> num_dispatch_instances s"
    using inv by (simp_all add: sched_inv_def)
  have finE: "finite (available_dispatch_instance_set s)"
    using finA sub by (rule rev_finite_subset)
  have finE': "finite E" using finE by (simp add: E_def)
  have EA: "E \<subseteq> A" using sub by (auto simp: E_def A_def)
  have all': "instance_id_set s' = A"
    using True by (simp add: s'_def A_def remove_instance_sets)
  have cnt': "instance_num_requests s' = AList.delete i (instance_num_requests s)"
    using True by (simp add: s'_def remove_instance_frame)
  have cap': "num_dispatch_instances s' = num_dispatch_instances s"
    by (simp add: s'_def remove_instance_frame)
  have av': "available_dispatch_instance_set s' = E \<or>
             (A - E \<noteq> {} \<and> i \<in> available_dispatch_instance_set s \<and>
              available_dispatch_instance_set s' = insert (nxt (A - E)) E)"
    using True by (simp add: s'_def A_def E_def remove_instance_sets)
  have nxt_in: "nxt (A - E) \<in> A - E" if ne: "A - E \<noteq> {}"
  proof -
    have "finite (A - E)" using finA by (simp add: A_def)
    then show ?thesis using ne by (rule set_iter_okD[OF ok])
  qed
  have E_sub: "E \<subseteq> available_dispatch_instance_set s'"
    using av' by blast
  have avail_sub: "available_dispatch_instance_set s' \<subseteq> A"
    using av'
  proof
    assume "available_dispatch_instance_set s' = E"
    then show ?thesis using EA by simp
  next
    assume h: "A - E \<noteq> {} \<and> i \<in> available_dispatch_instance_set s \<and>
              available_dispatch_instance_set s' = insert (nxt (A - E)) E"
    then have "nxt (A - E) \<in> A - E" using nxt_in by simp
    then have "nxt (A - E) \<in> A" by simp
    then show ?thesis using h EA by simp
  qed
  have cardE: "card E \<le> card (available_dispatch_instance_set s)"
    unfolding E_def using finE by (simp add: card_Diff1_le)
  have card_le: "card (available_dispatch_instance_set s') \<le> card (available_dispatch_instance_set s)"
    using av'
  proof
    assume "available_dispatch_instance_set s' = E"
    then show ?thesis using cardE by simp
  next
    assume h: "A - E \<noteq> {} \<and> i \<in> available_dispatch_instance_set s \<and>
              available_dispatch_instance_set s' = insert (nxt (A - E)) E"
    have "card (insert (nxt (A - E)) E) \<le> Suc (card E)"
      using finE' by (simp add: card_insert_if)
    moreover have "Suc (card E) = card (available_dispatch_instance_set s)"
    proof -
      from h have "i \<in> available_dispatch_instance_set s" by simp
      with finE show ?thesis unfolding E_def by (rule card_Suc_Diff1)
    qed
    ultimately show ?thesis using h by simp
  qed
  have domd: "dom (map_of (AList.delete i (instance_num_requests s))) =
      dom (map_of (instance_num_requests s)) - {i}"
    by (simp add: AList.delete_conv')
  have keys': "dom (map_of (instance_num_requests s')) \<subseteq> available_dispatch_instance_set s'"
    unfolding cnt' domd using keys E_sub unfolding E_def by blast
  show ?thesis
    unfolding sched_inv_def s'_def[symmetric]
  proof (intro conjI)
    show "finite (instance_id_set s')" using finA by (simp add: all' A_def)
    show "available_dispatch_instance_set s' \<subseteq> instance_id_set s'"
      using avail_sub by (simp add: all')
    show "dom (map_of (instance_num_requests s')) \<subseteq> available_dispatch_instance_set s'"
      by (rule keys')
    show "distinct (map fst (instance_num_requests s'))"
      using dist by (simp add: cnt' AList.distinct_delete)
    show "\<forall>k. sublist ''decode'' k \<longrightarrow> map_of (instance_num_requests s') k = None"
      using dec by (simp add: cnt' AList.delete_conv')
    show "0 < num_dispatch_instances s' \<longrightarrow>
        int (card (available_dispatch_instance_set s')) \<le> num_dispatch_instances s'"
      using cap card_le unfolding cap' by linarith
  qed
qed


lemma update_instance_infos_inv: "sched_inv s \<Longrightarrow> sched_inv (update_instance_infos infos s)"
  by (simp add: sched_inv_def update_instance_infos_def)

lemma dispatch_frame:
  "instance_id_set (snd (dispatch r s)) = instance_id_set s"
  "available_dispatch_instance_set (snd (dispatch r s)) = available_dispatch_instance_set s"
  "num_dispatch_instances (snd (dispatch r s)) = num_dispatch_instances s"
  "dispatch_policy (snd (dispatch r s)) = dispatch_policy s"
  by (simp_all add: dispatch_def sort_instance_infos_def Let_def
        split: prod.splits sum.splits option.splits)

lemma dispatch_counts:
  "instance_num_requests (snd (dispatch r s)) = instance_num_requests s \<or>
   (\<exists>k n. map_of (instance_num_requests s) k = Some n \<and>
      instance_num_requests (snd (dispatch r s)) = AList.update k (n + 1) (instance_num_requests s))"
  by (auto simp add: dispatch_def sort_instance_infos_def Let_def
        split: prod.splits sum.splits option.splits)

lemma update_existing:
  assumes "map_of al k = Some n"
  shows "map fst (AList.update k v al) = map fst al"
proof -
  have "k \<in> fst ` set al" using assms by (rule map_of_SomeD[THEN imageI, of _ _ _ fst, simplified])
  then show ?thesis by (simp add: AList.update_keys)
qed

lemma dispatch_keys: "map fst (instance_num_requests (snd (dispatch r s))) = map fst (instance_num_requests s)"
  using dispatch_counts[of r s] by (auto simp: update_existing)

lemma sched_inv_dispatch:
  assumes "sched_inv s"
  shows "sched_inv (snd (dispatch r s))"
proof -
  have "dom (map_of (instance_num_requests (snd (dispatch r s)))) = dom (map_of (instance_num_requests s))"
    by (simp add: dom_map_of_conv_image_fst dispatch_keys flip: set_map)
  moreover have "\<And>k. map_of (instance_num_requests (snd (dispatch r s))) k = None \<longleftrightarrow>
      map_of (instance_num_requests s) k = None"
    by (simp add: map_of_eq_None_iff dispatch_keys flip: set_map)
  ultimately show ?thesis
    using assms by (simp add: sched_inv_def dispatch_frame dispatch_keys)
qed

lemma step_inv: "sched_inv s \<Longrightarrow> call_ok c \<Longrightarrow> sched_inv (step c s)"
  by (cases c) (simp_all add: sched_inv_add sched_inv_remove sched_inv_dispatch update_instance_infos_inv)

lemma run_inv: "sched_inv s \<Longrightarrow> \<forall>c\<in>set cs. call_ok c \<Longrightarrow> sched_inv (run cs s)"
  by (induction cs arbitrary: s) (simp_all add: step_inv)

lemma step_frame:
  "num_dispatch_instances (step c s) = num_dispatch_instances s"
  "dispatch_policy (step c s) = dispatch_policy s"
  by (cases c; simp add: add_instance_frame remove_instance_frame dispatch_frame update_instance_infos_def)+

lemma run_frame:
  "num_dispatch_instances (run cs s) = num_dispatch_instances s"
  "dispatch_policy (run cs s) = dispatch_policy s"
  by (induction cs arbitrary: s; simp add: step_frame)+


lemma reachable_inv:
  "\<forall>call\<in>set cs. call_ok call \<Longrightarrow> sched_inv (run cs (new_scheduler p c))"
  by (rule run_inv[OF sched_inv_new])

lemma new_scheduler_frame:
  "num_dispatch_instances (new_scheduler p c) = c"
  "dispatch_policy (new_scheduler p c) = p"
  by (simp_all add: new_scheduler_def)

section \<open>Capacity of the dispatchable set\<close>

text \<open>
  C4: with a configured capacity \<open>c > 0\<close>, after every sequence of calls (of
  \<open>add_instance\<close> and \<open>remove_instance\<close>, and of the two other operations as well, whether
  a call returns or raises) the dispatchable set has at most \<open>c\<close> members and is a subset
  of the registered instances.
\<close>

theorem capacity_invariant:
  assumes "0 < c" and "\<forall>call\<in>set cs. call_ok call"
  shows "int (card (available_dispatch_instance_set (run cs (new_scheduler p c)))) \<le> c \<and>
         available_dispatch_instance_set (run cs (new_scheduler p c))
           \<subseteq> instance_id_set (run cs (new_scheduler p c))"
proof -
  have "sched_inv (run cs (new_scheduler p c))"
    using assms(2) by (rule reachable_inv)
  moreover have "num_dispatch_instances (run cs (new_scheduler p c)) = c"
    by (simp add: run_frame new_scheduler_frame)
  ultimately show ?thesis
    using assms(1) by (simp add: sched_inv_def)
qed

theorem capacity_invariant_witness:
  "set_iter_ok Min \<and>
   int (card (available_dispatch_instance_set
      (run [Add ''a'', Add ''b'', Remove Min ''a''] (new_scheduler Flood 1)))) \<le> 1 \<and>
   available_dispatch_instance_set (run [Add ''a'', Add ''b'', Remove Min ''a''] (new_scheduler Flood 1))
     \<subseteq> instance_id_set (run [Add ''a'', Add ''b'', Remove Min ''a''] (new_scheduler Flood 1))"
  using capacity_invariant[of 1 "[Add ''a'', Add ''b'', Remove Min ''a'']" Flood]
  by (simp add: set_iter_ok_def)

section \<open>Dispatch with no dispatchable instance\<close>

text \<open>
  C5: in every state of the scheduler in which the dispatchable set is empty, \<open>dispatch\<close>
  raises instead of returning an id, under each of the five policies. The exception is the
  one the policy's own selection raises on empty data: \<^verbatim>\<open>ValueError\<close> from \<^verbatim>\<open>max\<close> and
  \<^verbatim>\<open>min\<close> (Flood, Balanced), \<^verbatim>\<open>IndexError\<close> from the empty sorted view (Load, Queue),
  \<^verbatim>\<open>ZeroDivisionError\<close> from the modulus (RoundRobin); the spec names them all
  NoAvailableInstanceError.
\<close>

theorem empty_dispatch_fails:
  assumes "\<forall>call\<in>set cs. call_ok call"
    and "available_dispatch_instance_set (run cs (new_scheduler p c)) = {}"
  shows "fst (dispatch r (run cs (new_scheduler p c))) =
           Inl (case p of Flood \<Rightarrow> ValueError | Balanced \<Rightarrow> ValueError | Load \<Rightarrow> IndexError
                | Queue \<Rightarrow> IndexError | RoundRobin \<Rightarrow> ZeroDivisionError)"
proof -
  define s where "s = run cs (new_scheduler p c)"
  have "sched_inv s"
    unfolding s_def using assms(1) by (rule reachable_inv)
  then have "dom (map_of (instance_num_requests s)) = {}"
    using assms(2) by (simp add: sched_inv_def s_def)
  then have cnt: "instance_num_requests s = []"
    by (cases "instance_num_requests s") auto
  have pol: "dispatch_policy s = p"
    by (simp add: s_def run_frame new_scheduler_frame)
  have av: "available_dispatch_instance_set s = {}"
    using assms(2) by (simp add: s_def)
  have "fst (dispatch r s) =
           Inl (case p of Flood \<Rightarrow> ValueError | Balanced \<Rightarrow> ValueError | Load \<Rightarrow> IndexError
                | Queue \<Rightarrow> IndexError | RoundRobin \<Rightarrow> ZeroDivisionError)"
    using cnt pol av
    by (cases p)
       (simp_all add: dispatch_def policy_dispatch_def Flood_dispatch_def Balanced_dispatch_def
          Load_dispatch_def Queue_dispatch_def RoundRobin_dispatch_def sort_instance_infos_def
          py_sorted_def Let_def)
  then show ?thesis by (simp add: s_def)
qed


theorem empty_dispatch_fails_witness:
  "set_iter_ok Min \<and>
   available_dispatch_instance_set (run [Add ''a'', Remove Min ''a''] (new_scheduler RoundRobin 1)) = {} \<and>
   fst (dispatch 0 (run [Add ''a'', Remove Min ''a''] (new_scheduler RoundRobin 1))) = Inl ZeroDivisionError"
proof -
  have ok: "\<forall>call\<in>set [Add ''a'', Remove Min ''a'']. call_ok call"
    by (simp add: set_iter_ok_def)
  have av: "available_dispatch_instance_set (run [Add ''a'', Remove Min ''a''] (new_scheduler RoundRobin 1)) = {}"
    by (simp add: new_scheduler_def add_instance_def remove_instance_def Let_def sublist_Cons_right)
  show ?thesis
    using empty_dispatch_fails[OF ok av, of 0] av by (simp add: set_iter_ok_def)
qed

section \<open>Backfill creates no counter\<close>

text \<open>
  C2: when \<open>remove_instance\<close> backfills an instance \<open>f\<close> (the removed id is dispatchable,
  the fleet after the removal is at least as large as the capacity, and some registered
  instance is not dispatchable), the call returns, \<open>f\<close> is dispatchable afterwards, \<open>f\<close> is
  not a key of the counters, and the counters are the old ones with the removed id's entry
  deleted.
\<close>

theorem backfill_creates_no_counter:
  assumes "\<forall>call\<in>set cs. call_ok call" and "s = run cs (new_scheduler p c)"
    and "set_iter_ok nxt"
    and "i \<in> available_dispatch_instance_set s"
    and "num_dispatch_instances s \<le> int (card (instance_id_set s - {i}))"
    and "instance_id_set s - {i} - (available_dispatch_instance_set s - {i}) \<noteq> {}"
    and "f = nxt (instance_id_set s - {i} - (available_dispatch_instance_set s - {i}))"
  shows "fst (remove_instance nxt i s) = Inr () \<and>
         available_dispatch_instance_set (snd (remove_instance nxt i s)) =
           insert f (available_dispatch_instance_set s - {i}) \<and>
         f \<notin> fst ` set (instance_num_requests (snd (remove_instance nxt i s))) \<and>
         instance_num_requests (snd (remove_instance nxt i s)) =
           AList.delete i (instance_num_requests s)"
proof -
  have inv: "sched_inv s"
    unfolding assms(2) using assms(1) by (rule reachable_inv)
  then have sub: "available_dispatch_instance_set s \<subseteq> instance_id_set s"
    and fin: "finite (instance_id_set s)"
    and keys: "dom (map_of (instance_num_requests s)) \<subseteq> available_dispatch_instance_set s"
    by (simp_all add: sched_inv_def)
  have iA: "i \<in> instance_id_set s" using assms(4) sub by blast
  have "finite (instance_id_set s - {i} - (available_dispatch_instance_set s - {i}))"
    using fin by simp
  then have "f \<in> instance_id_set s - {i} - (available_dispatch_instance_set s - {i})"
    unfolding assms(7) using assms(6) by (rule set_iter_okD[OF assms(3)])
  then have "f \<notin> available_dispatch_instance_set s" by blast
  then have "f \<notin> dom (map_of (instance_num_requests s))" using keys by blast
  then have "f \<notin> fst ` set (instance_num_requests s)"
    by (simp add: dom_map_of_conv_image_fst)
  then have fk: "f \<notin> fst ` set (AList.delete i (instance_num_requests s))"
    using AList.dom_delete_subset[of i "instance_num_requests s"] by blast
  have r: "fst (remove_instance nxt i s) = Inr ()"
    using iA assms(4,5,6) by (simp add: remove_instance_def Let_def)
  show ?thesis
    using r fk iA assms(4,5,6,7) by (simp add: remove_instance_sets remove_instance_frame)
qed

theorem backfill_creates_no_counter_witness:
  "set_iter_ok Min \<and>
   fst (remove_instance Min ''a'' (run [Add ''a'', Add ''b''] (new_scheduler Load 1))) = Inr () \<and>
   available_dispatch_instance_set
     (snd (remove_instance Min ''a'' (run [Add ''a'', Add ''b''] (new_scheduler Load 1)))) = {''b''} \<and>
   ''b'' \<notin> fst ` set (instance_num_requests
     (snd (remove_instance Min ''a'' (run [Add ''a'', Add ''b''] (new_scheduler Load 1))))) \<and>
   instance_num_requests
     (snd (remove_instance Min ''a'' (run [Add ''a'', Add ''b''] (new_scheduler Load 1)))) = []"
proof -
  let ?s = "run [Add ''a'', Add ''b''] (new_scheduler Load 1)"
  have s: "?s =
      \<lparr> dispatch_policy = Load, prev_instance_idx = - 1, num_instances = 2,
        instance_id_set = {''a'', ''b''}, available_dispatch_instance_set = {''a''},
        num_dispatch_instances = 1, instance_info = [], sorted_instance_infos = None,
        num_requests = 0, instance_num_requests = [(''a'', 0)] \<rparr>"
    by (simp add: new_scheduler_def add_instance_def Let_def sublist_Cons_right insert_commute)
  have ok: "\<forall>call\<in>set [Add ''a'', Add ''b'']. call_ok call" by simp
  have m: "set_iter_ok Min" by (simp add: set_iter_ok_def)
  have h4: "''a'' \<in> available_dispatch_instance_set ?s" unfolding s by simp
  have h5: "num_dispatch_instances ?s \<le> int (card (instance_id_set ?s - {''a''}))"
    unfolding s by simp
  have free: "instance_id_set ?s - {''a''} - (available_dispatch_instance_set ?s - {''a''}) = {''b''}"
    unfolding s by auto
  have h6: "instance_id_set ?s - {''a''} - (available_dispatch_instance_set ?s - {''a''}) \<noteq> {}"
    unfolding free by simp
  have h7: "''b'' = Min (instance_id_set ?s - {''a''} - (available_dispatch_instance_set ?s - {''a''}))"
    unfolding free by simp
  have cnt: "AList.delete ''a'' (instance_num_requests ?s) = []" unfolding s by simp
  have av: "insert ''b'' (available_dispatch_instance_set ?s - {''a''}) = {''b''}"
    unfolding s by auto
  have "fst (remove_instance Min ''a'' ?s) = Inr () \<and>
        available_dispatch_instance_set (snd (remove_instance Min ''a'' ?s)) = {''b''} \<and>
        ''b'' \<notin> fst ` set (instance_num_requests (snd (remove_instance Min ''a'' ?s))) \<and>
        instance_num_requests (snd (remove_instance Min ''a'' ?s)) = []"
    using backfill_creates_no_counter[OF ok refl m h4 h5 h6 h7] unfolding cnt av .
  with m show ?thesis by (rule conjI)
qed

section \<open>Fairness of the Balanced policy\<close>

lemma foldl_min_props:
  fixes key :: "'a \<Rightarrow> 'k::linorder"
  shows "foldl (\<lambda>best y. if key y < key best then y else best) b ys \<in> insert b (set ys) \<and>
         (\<forall>y\<in>insert b (set ys). key (foldl (\<lambda>best y. if key y < key best then y else best) b ys) \<le> key y)"
proof (induction ys arbitrary: b)
  case Nil
  show ?case by simp
next
  case (Cons y ys)
  let ?f = "\<lambda>best y. if key y < key best then y else best"
  let ?b = "?f b y"
  have IH: "foldl ?f ?b ys \<in> insert ?b (set ys) \<and> (\<forall>z\<in>insert ?b (set ys). key (foldl ?f ?b ys) \<le> key z)"
    by (rule Cons.IH)
  have b1: "?b = b \<or> ?b = y" by simp
  have b2: "key ?b \<le> key b" and b3: "key ?b \<le> key y" by auto
  have le: "key (foldl ?f ?b ys) \<le> key ?b" using IH by blast
  have "foldl ?f ?b ys \<in> insert b (set (y # ys))" using IH b1 by auto
  moreover have "\<forall>z\<in>insert b (set (y # ys)). key (foldl ?f ?b ys) \<le> key z"
  proof
    fix z assume "z \<in> insert b (set (y # ys))"
    then consider "z = b" | "z = y" | "z \<in> set ys" by auto
    then show "key (foldl ?f ?b ys) \<le> key z"
    proof cases
      case 1 then show ?thesis using order_trans[OF le b2] by simp
    next
      case 2 then show ?thesis using order_trans[OF le b3] by simp
    next
      case 3 then show ?thesis using IH by blast
    qed
  qed
  ultimately show ?case by simp
qed

lemma py_min_props:
  assumes "xs \<noteq> []"
  shows "\<exists>m. py_min key xs = Inr m \<and> m \<in> set xs \<and> (\<forall>y\<in>set xs. key m \<le> key y)"
proof -
  obtain x rest where xs: "xs = x # rest" using assms by (cases xs) auto
  show ?thesis
    using foldl_min_props[of key x rest] unfolding xs by simp
qed

lemma balanced_dispatch_step:
  assumes pol: "dispatch_policy s = Balanced"
    and ne: "instance_num_requests s \<noteq> []"
  shows "\<exists>k n. fst (dispatch r s) = Inr k \<and> map_of (instance_num_requests s) k = Some n \<and>
           (\<forall>k' n'. map_of (instance_num_requests s) k' = Some n' \<longrightarrow> n \<le> n') \<and>
           instance_num_requests (snd (dispatch r s)) =
             AList.update k (n + 1) (instance_num_requests s)"
proof -
  let ?d = "instance_num_requests s"
  have "map fst ?d \<noteq> []" using ne by simp
  then have "\<exists>k. py_min (map_of ?d) (map fst ?d) = Inr k \<and> k \<in> set (map fst ?d) \<and>
      (\<forall>y\<in>set (map fst ?d). map_of ?d k \<le> map_of ?d y)"
    by (rule py_min_props)
  then obtain k where k: "py_min (map_of ?d) (map fst ?d) = Inr k" and kin: "k \<in> set (map fst ?d)"
    and kmin: "\<forall>y\<in>set (map fst ?d). map_of ?d k \<le> map_of ?d y"
    by (elim exE conjE)
  from kin obtain n where n: "map_of ?d k = Some n"
    by (cases "map_of ?d k") (auto simp: map_of_eq_None_iff)
  have least: "\<forall>k' n'. map_of ?d k' = Some n' \<longrightarrow> n \<le> n'"
  proof (intro allI impI)
    fix k' n' assume h: "map_of ?d k' = Some n'"
    then have "k' \<in> set (map fst ?d)" by (auto dest: map_of_SomeD intro: rev_image_eqI)
    then have "map_of ?d k \<le> map_of ?d k'" by (rule kmin[rule_format])
    then show "n \<le> n'" using n h by simp
  qed
  have "fst (dispatch r s) = Inr k \<and>
        instance_num_requests (snd (dispatch r s)) = AList.update k (n + 1) ?d"
    using pol k n by (simp add: dispatch_def policy_dispatch_def Balanced_dispatch_def Let_def)
  then have "fst (dispatch r s) = Inr k \<and> map_of ?d k = Some n \<and>
           (\<forall>k' n'. map_of ?d k' = Some n' \<longrightarrow> n \<le> n') \<and>
           instance_num_requests (snd (dispatch r s)) = AList.update k (n + 1) ?d"
    using n least by simp
  then show ?thesis by (intro exI)
qed

lemma within_one_step:
  assumes w: "within_one m d" and n: "map_of d k = Some n"
    and least: "\<forall>k' n'. map_of d k' = Some n' \<longrightarrow> n \<le> n'"
  shows "\<exists>m'. within_one m' (AList.update k (n + 1) d)"
proof (cases "n = m")
  case True
  have "within_one m (AList.update k (n + 1) d)"
    using w True unfolding within_one_def by (auto simp: AList.update_conv')
  then show ?thesis ..
next
  case False
  have "m \<le> n \<and> n \<le> m + 1" using w n unfolding within_one_def by blast
  then have nm: "n = m + 1" using False by simp
  have "within_one (m + 1) (AList.update k (n + 1) d)"
    unfolding within_one_def
  proof (intro allI impI)
    fix k' n' assume h: "map_of (AList.update k (n + 1) d) k' = Some n'"
    show "m + 1 \<le> n' \<and> n' \<le> m + 1 + 1"
    proof (cases "k' = k")
      case True
      then have "n' = n + 1" using h by (simp add: AList.update_conv')
      then show ?thesis using nm by simp
    next
      case False
      then have h': "map_of d k' = Some n'" using h by (simp add: AList.update_conv')
      then have "n \<le> n'" using least by blast
      moreover have "n' \<le> m + 1" using w h' unfolding within_one_def by blast
      ultimately show ?thesis using nm by simp
    qed
  qed
  then show ?thesis ..
qed

lemma balanced_dispatch_seq:
  assumes "dispatch_policy s = Balanced" and "instance_num_requests s \<noteq> []"
    and "within_one m (instance_num_requests s)"
  shows "(\<exists>ids. fst (dispatch_seq rs s) = map Inr ids) \<and>
         map fst (instance_num_requests (snd (dispatch_seq rs s))) = map fst (instance_num_requests s) \<and>
         (\<exists>m'. within_one m' (instance_num_requests (snd (dispatch_seq rs s))))"
  using assms
proof (induction rs arbitrary: s m)
  case Nil
  have "fst (dispatch_seq [] s) = map Inr []" by simp
  then show ?case using Nil by auto
next
  case (Cons r rs)
  let ?s1 = "snd (dispatch r s)"
  obtain k n where out: "fst (dispatch r s) = Inr k" and n: "map_of (instance_num_requests s) k = Some n"
    and least: "\<forall>k' n'. map_of (instance_num_requests s) k' = Some n' \<longrightarrow> n \<le> n'"
    and cnt: "instance_num_requests ?s1 = AList.update k (n + 1) (instance_num_requests s)"
    using balanced_dispatch_step[OF Cons.prems(1,2), of r] by blast
  have pol1: "dispatch_policy ?s1 = Balanced" using Cons.prems(1) by (simp add: dispatch_frame)
  have keys1: "map fst (instance_num_requests ?s1) = map fst (instance_num_requests s)"
    by (rule dispatch_keys)
  have ne1: "instance_num_requests ?s1 \<noteq> []"
    using keys1 Cons.prems(2) by (metis map_is_Nil_conv)
  obtain m1 where w1: "within_one m1 (instance_num_requests ?s1)"
    using within_one_step[OF Cons.prems(3) n least] unfolding cnt[symmetric] by (elim exE)
  from Cons.IH[OF pol1 ne1 w1]
  obtain ids where ids: "fst (dispatch_seq rs ?s1) = map Inr ids"
    and keys: "map fst (instance_num_requests (snd (dispatch_seq rs ?s1))) = map fst (instance_num_requests ?s1)"
    and w: "\<exists>m'. within_one m' (instance_num_requests (snd (dispatch_seq rs ?s1)))"
    by (elim exE conjE) (rule that, assumption+, rule exI)
  have seq: "dispatch_seq (r # rs) s =
      (fst (dispatch r s) # fst (dispatch_seq rs ?s1), snd (dispatch_seq rs ?s1))"
    by (simp add: split_beta)
  have "fst (dispatch_seq (r # rs) s) = map Inr (k # ids)"
    using seq out ids by simp
  then have "\<exists>ids. fst (dispatch_seq (r # rs) s) = map Inr ids" ..
  then show ?case using seq keys keys1 w by simp
qed

lemma within_one_Max_Min:
  assumes w: "within_one m d" and dist: "distinct (map fst d)" and ne: "d \<noteq> []"
  shows "Max (snd ` set d) - Min (snd ` set d) \<le> 1"
proof -
  have fin: "finite (snd ` set d)" and nes: "snd ` set d \<noteq> {}" using ne by simp_all
  have bnd: "\<forall>v\<in>snd ` set d. m \<le> v \<and> v \<le> m + 1"
  proof
    fix v assume "v \<in> snd ` set d"
    then obtain k where "(k, v) \<in> set d" by auto
    then have "map_of d k = Some v" using dist by simp
    then show "m \<le> v \<and> v \<le> m + 1" using w unfolding within_one_def by blast
  qed
  have "Max (snd ` set d) \<le> m + 1" using fin nes bnd by simp
  moreover have "m \<le> Min (snd ` set d)" using fin nes bnd by simp
  ultimately show ?thesis by simp
qed

text \<open>
  C7: under the Balanced policy, from any state whose counters are a dictionary with at
  least one entry and all values equal, any number of successive \<open>dispatch\<close> calls (the
  length of \<open>rs\<close>) all return an id, leave the keys of the counters as they were, and leave
  the largest and the smallest counter at most one apart.
\<close>

theorem balanced_fairness:
  assumes "dispatch_policy s = Balanced"
    and "distinct (map fst (instance_num_requests s))"
    and "instance_num_requests s \<noteq> []"
    and "\<forall>p\<in>set (instance_num_requests s). snd p = c"
  shows "(\<exists>ids. fst (dispatch_seq rs s) = map Inr ids) \<and>
         map fst (instance_num_requests (snd (dispatch_seq rs s))) =
           map fst (instance_num_requests s) \<and>
         Max (snd ` set (instance_num_requests (snd (dispatch_seq rs s)))) -
           Min (snd ` set (instance_num_requests (snd (dispatch_seq rs s)))) \<le> 1"
proof -
  have w0: "within_one c (instance_num_requests s)"
    unfolding within_one_def using assms(4) by (auto dest!: map_of_SomeD)
  let ?d = "instance_num_requests (snd (dispatch_seq rs s))"
  from balanced_dispatch_seq[OF assms(1,3) w0, of rs]
  obtain m' where ids: "\<exists>ids. fst (dispatch_seq rs s) = map Inr ids"
    and keys: "map fst ?d = map fst (instance_num_requests s)"
    and w: "within_one m' ?d" by (elim exE conjE) (rule that, rule exI)
  have dist: "distinct (map fst ?d)" using keys assms(2) by simp
  have ne: "?d \<noteq> []" using keys assms(3) by (metis map_is_Nil_conv)
  from ids keys within_one_Max_Min[OF w dist ne] show ?thesis by (intro conjI)
qed


theorem balanced_fairness_witness:
  "dispatch_policy (run [Add ''b'', Add ''a'', Add ''c''] (new_scheduler Balanced 0)) = Balanced \<and>
   instance_num_requests (run [Add ''b'', Add ''a'', Add ''c''] (new_scheduler Balanced 0)) =
     [(''b'', 0), (''a'', 0), (''c'', 0)] \<and>
   map fst (instance_num_requests (snd (dispatch_seq [0, 0, 0, 0, 0]
       (run [Add ''b'', Add ''a'', Add ''c''] (new_scheduler Balanced 0))))) = [''b'', ''a'', ''c''] \<and>
   Max (snd ` set (instance_num_requests (snd (dispatch_seq [0, 0, 0, 0, 0]
       (run [Add ''b'', Add ''a'', Add ''c''] (new_scheduler Balanced 0)))))) -
   Min (snd ` set (instance_num_requests (snd (dispatch_seq [0, 0, 0, 0, 0]
       (run [Add ''b'', Add ''a'', Add ''c''] (new_scheduler Balanced 0)))))) \<le> 1"
proof -
  let ?s = "run [Add ''b'', Add ''a'', Add ''c''] (new_scheduler Balanced 0)"
  have pol: "dispatch_policy ?s = Balanced"
    by (simp only: run_frame new_scheduler_frame)
  have cnt: "instance_num_requests ?s = [(''b'', 0), (''a'', 0), (''c'', 0)]"
    by (simp add: new_scheduler_def add_instance_def Let_def sublist_Cons_right)
  have h2: "distinct (map fst (instance_num_requests ?s))" unfolding cnt by simp
  have h3: "instance_num_requests ?s \<noteq> []" unfolding cnt by simp
  have h4: "\<forall>p\<in>set (instance_num_requests ?s). snd p = 0" unfolding cnt by simp
  have keys: "map fst (instance_num_requests ?s) = [''b'', ''a'', ''c'']" unfolding cnt by simp
  from balanced_fairness[OF pol h2 h3 h4, of "[0, 0, 0, 0, 0]"]
  have "map fst (instance_num_requests (snd (dispatch_seq [0, 0, 0, 0, 0] ?s))) = [''b'', ''a'', ''c''] \<and>
        Max (snd ` set (instance_num_requests (snd (dispatch_seq [0, 0, 0, 0, 0] ?s)))) -
        Min (snd ` set (instance_num_requests (snd (dispatch_seq [0, 0, 0, 0, 0] ?s)))) \<le> 1"
    unfolding keys by (elim conjE) (rule conjI)
  with pol cnt show ?thesis by (intro conjI) (elim conjE, assumption)+
qed

section \<open>Round-robin order\<close>

lemma round_robin_step:
  assumes pol: "dispatch_policy s = RoundRobin"
    and keys: "map fst (instance_num_requests s) = [''b'', ''a'', ''c'']"
  shows "fst (dispatch r s) = Inr ([''a'', ''b'', ''c''] ! nat ((prev_instance_idx s + 1) mod 3)) \<and>
         prev_instance_idx (snd (dispatch r s)) = (prev_instance_idx s + 1) mod 3"
proof -
  let ?d = "instance_num_requests s"
  let ?cur = "(prev_instance_idx s + 1) mod 3"
  let ?k = "[''a'', ''b'', ''c''] ! nat ?cur"
  have srt: "sort (map fst ?d) = [''a'', ''b'', ''c'']"
    unfolding keys by (simp add: less_eq_char_def less_char_def)
  have "0 \<le> ?cur" and "?cur < 3" by simp_all
  then have "nat ?cur < 3" by simp
  then have "nat ?cur = 0 \<or> nat ?cur = 1 \<or> nat ?cur = 2" by arith
  then have "?k \<in> set (map fst ?d)" unfolding keys by auto
  then obtain n where n: "map_of ?d ?k = Some n"
    by (cases "map_of ?d ?k") (auto simp: map_of_eq_None_iff)
  have rr: "RoundRobin_dispatch (prev_instance_idx s) ?d (sorted_instance_infos s) = (Inr ?k, ?cur)"
    unfolding RoundRobin_dispatch_def srt by (simp add: Let_def)
  show ?thesis
    using pol n rr by (simp add: dispatch_def policy_dispatch_def Let_def)
qed

text \<open>
  C9: under the RoundRobin policy with unbounded capacity (\<open>c \<le> 0\<close>), after \<open>add_instance\<close>
  for the ids b, a, c in that order on a fresh scheduler, four successive \<open>dispatch\<close> calls
  return a, b, c, a.
\<close>

theorem round_robin_order:
  assumes "c \<le> 0"
  shows "fst (dispatch_seq [r1, r2, r3, r4]
           (run [Add ''b'', Add ''a'', Add ''c''] (new_scheduler RoundRobin c))) =
         [Inr ''a'', Inr ''b'', Inr ''c'', Inr ''a'']"
proof -
  let ?s0 = "run [Add ''b'', Add ''a'', Add ''c''] (new_scheduler RoundRobin c)"
  let ?s1 = "snd (dispatch r1 ?s0)"
  let ?s2 = "snd (dispatch r2 ?s1)"
  let ?s3 = "snd (dispatch r3 ?s2)"
  have pol0: "dispatch_policy ?s0 = RoundRobin" by (simp only: run_frame new_scheduler_frame)
  have keys0: "map fst (instance_num_requests ?s0) = [''b'', ''a'', ''c'']"
    using assms by (simp add: new_scheduler_def add_instance_def Let_def sublist_Cons_right)
  have prev0: "prev_instance_idx ?s0 = - 1"
    using assms by (simp add: new_scheduler_def add_instance_def Let_def sublist_Cons_right)
  have pol1: "dispatch_policy ?s1 = RoundRobin" using pol0 by (simp only: dispatch_frame)
  have pol2: "dispatch_policy ?s2 = RoundRobin" using pol1 by (simp only: dispatch_frame)
  have pol3: "dispatch_policy ?s3 = RoundRobin" using pol2 by (simp only: dispatch_frame)
  have keys1: "map fst (instance_num_requests ?s1) = [''b'', ''a'', ''c'']"
    using keys0 by (simp only: dispatch_keys)
  have keys2: "map fst (instance_num_requests ?s2) = [''b'', ''a'', ''c'']"
    using keys1 by (simp only: dispatch_keys)
  have keys3: "map fst (instance_num_requests ?s3) = [''b'', ''a'', ''c'']"
    using keys2 by (simp only: dispatch_keys)
  have d1: "fst (dispatch r1 ?s0) = Inr ''a''" and p1: "prev_instance_idx ?s1 = 0"
    using round_robin_step[OF pol0 keys0, of r1] unfolding prev0 by simp_all
  have d2: "fst (dispatch r2 ?s1) = Inr ''b''" and p2: "prev_instance_idx ?s2 = 1"
    using round_robin_step[OF pol1 keys1, of r2] unfolding p1 by simp_all
  have d3: "fst (dispatch r3 ?s2) = Inr ''c''" and p3: "prev_instance_idx ?s3 = 2"
    using round_robin_step[OF pol2 keys2, of r3] unfolding p2 by simp_all
  have d4: "fst (dispatch r4 ?s3) = Inr ''a''"
    using round_robin_step[OF pol3 keys3, of r4] unfolding p3 by simp
  have "fst (dispatch_seq [r1, r2, r3, r4] ?s0) =
      [fst (dispatch r1 ?s0), fst (dispatch r2 ?s1), fst (dispatch r3 ?s2), fst (dispatch r4 ?s3)]"
    by (simp add: split_beta)
  then show ?thesis unfolding d1 d2 d3 d4 .
qed

theorem round_robin_order_witness:
  "(0::int) \<le> 0 \<and>
   fst (dispatch_seq [0, 0, 0, 0]
     (run [Add ''b'', Add ''a'', Add ''c''] (new_scheduler RoundRobin 0))) =
   [Inr ''a'', Inr ''b'', Inr ''c'', Inr ''a'']"
proof -
  have h: "(0::int) \<le> 0" by simp
  from h round_robin_order[OF h, of 0 0 0 0] show ?thesis by (rule conjI)
qed


section \<open>Backfill and decode-only instances\<close>

lemma two_instances_capacity_one:
  assumes "\<not> sublist ''decode'' x" and "x \<noteq> y"
  shows "run [Add x, Add y] (new_scheduler p 1) =
      \<lparr> dispatch_policy = p, prev_instance_idx = - 1, num_instances = 2,
        instance_id_set = {y, x}, available_dispatch_instance_set = {x},
        num_dispatch_instances = 1, instance_info = [], sorted_instance_infos = None,
        num_requests = 0, instance_num_requests = [(x, 0)] \<rparr>"
  using assms by (simp add: new_scheduler_def add_instance_def Let_def)

lemma remove_first_of_two:
  assumes ok: "set_iter_ok nxt" and ne: "x \<noteq> y"
  shows "remove_instance nxt x
      \<lparr> dispatch_policy = p, prev_instance_idx = - 1, num_instances = 2,
        instance_id_set = {y, x}, available_dispatch_instance_set = {x},
        num_dispatch_instances = 1, instance_info = [], sorted_instance_infos = None,
        num_requests = 0, instance_num_requests = [(x, 0)] \<rparr> =
      (Inr (),
       \<lparr> dispatch_policy = p, prev_instance_idx = - 1, num_instances = 1,
        instance_id_set = {y}, available_dispatch_instance_set = {y},
        num_dispatch_instances = 1, instance_info = [], sorted_instance_infos = None,
        num_requests = 0, instance_num_requests = [] \<rparr>)"
proof -
  have "nxt {y} \<in> {y}" using ok by (rule set_iter_okD) simp_all
  then have nx: "nxt {y} = y" by simp
  have d1: "{y, x} - {x} = {y}" using ne by auto
  show ?thesis
    using ne by (simp add: remove_instance_def Let_def d1 nx)
qed

text \<open>
  The counter half holds: no id containing \<open>decode\<close> ever has a counter.
\<close>

lemma decode_never_counted:
  assumes "\<forall>call\<in>set cs. call_ok call" and "sublist ''decode'' k"
  shows "k \<notin> fst ` set (instance_num_requests (run cs (new_scheduler p c)))"
proof -
  have "sched_inv (run cs (new_scheduler p c))" using assms(1) by (rule reachable_inv)
  then have "map_of (instance_num_requests (run cs (new_scheduler p c))) k = None"
    using assms(2) by (simp add: sched_inv_def)
  then show ?thesis by (simp add: map_of_eq_None_iff)
qed

text \<open>
  C1: an id containing \<open>decode\<close> is never dispatchable and never has a counter. The code
  keeps the second half (\<open>reachable_inv\<close>: no such id has a counter in any reachable
  state) and breaks the first: with capacity 1, after adding \<open>a\<close> and \<open>decode_0\<close> and
  removing \<open>a\<close>, the backfill makes \<open>decode_0\<close> the dispatchable instance, whatever the
  iteration order of the set.
\<close>

theorem decode_instance_backfilled:
  assumes "set_iter_ok nxt"
  shows "sublist ''decode'' ''decode_0'' \<and>
         available_dispatch_instance_set
           (run [Add ''a'', Add ''decode_0'', Remove nxt ''a''] (new_scheduler p 1)) = {''decode_0''}"
proof -
  have s: "run [Add ''a'', Add ''decode_0''] (new_scheduler p 1) =
      \<lparr> dispatch_policy = p, prev_instance_idx = - 1, num_instances = 2,
        instance_id_set = {''decode_0'', ''a''}, available_dispatch_instance_set = {''a''},
        num_dispatch_instances = 1, instance_info = [], sorted_instance_infos = None,
        num_requests = 0, instance_num_requests = [(''a'', 0)] \<rparr>"
    by (simp add: new_scheduler_def add_instance_def Let_def sublist_Cons_right)
  have r: "run [Add ''a'', Add ''decode_0'', Remove nxt ''a''] (new_scheduler p 1) =
      snd (remove_instance nxt ''a'' (run [Add ''a'', Add ''decode_0''] (new_scheduler p 1)))"
    by simp
  have "available_dispatch_instance_set
           (run [Add ''a'', Add ''decode_0'', Remove nxt ''a''] (new_scheduler p 1)) = {''decode_0''}"
    unfolding r s by (simp add: remove_first_of_two[OF assms])
  moreover have "sublist ''decode'' ''decode_0''" by (simp add: sublist_Cons_right)
  ultimately show ?thesis by simp
qed

theorem decode_instance_backfilled_witness:
  "set_iter_ok Min \<and> sublist ''decode'' ''decode_0'' \<and>
   available_dispatch_instance_set
     (run [Add ''a'', Add ''decode_0'', Remove Min ''a''] (new_scheduler Balanced 1)) = {''decode_0''}"
proof -
  have m: "set_iter_ok Min" by (simp add: set_iter_ok_def)
  from m decode_instance_backfilled[OF m, of Balanced] show ?thesis by (rule conjI)
qed

section \<open>Backfill with unbounded capacity\<close>

text \<open>
  With an enforced capacity the removal of a dispatchable instance returns, and it backfills
  exactly when the capacity does not exceed the number of remaining instances.
\<close>

lemma bounded_removal_backfills:
  assumes c: "0 < c" and ok: "\<forall>call\<in>set cs. call_ok call"
    and s: "s = run cs (new_scheduler p c)"
    and iE: "i \<in> available_dispatch_instance_set s"
  shows "fst (remove_instance nxt i s) = Inr () \<and>
         available_dispatch_instance_set (snd (remove_instance nxt i s)) =
           (if c \<le> int (card (instance_id_set s - {i}))
            then insert (nxt (instance_id_set s - {i} - (available_dispatch_instance_set s - {i})))
                   (available_dispatch_instance_set s - {i})
            else available_dispatch_instance_set s - {i})"
proof -
  have inv: "sched_inv s" unfolding s using ok by (rule reachable_inv)
  have cap: "num_dispatch_instances s = c" unfolding s by (simp only: run_frame new_scheduler_frame)
  have fin: "finite (instance_id_set s)"
    and sub: "available_dispatch_instance_set s \<subseteq> instance_id_set s"
    and le: "int (card (available_dispatch_instance_set s)) \<le> c"
    using inv c cap by (simp_all add: sched_inv_def)
  have iA: "i \<in> instance_id_set s" using iE sub by (rule subsetD[rotated])
  have finE: "finite (available_dispatch_instance_set s)" using fin sub by (rule rev_finite_subset)
  have free_ne: "instance_id_set s - {i} - (available_dispatch_instance_set s - {i}) \<noteq> {}"
    if h: "c \<le> int (card (instance_id_set s - {i}))"
  proof
    assume "instance_id_set s - {i} - (available_dispatch_instance_set s - {i}) = {}"
    then have "instance_id_set s - {i} \<subseteq> available_dispatch_instance_set s - {i}" by simp
    moreover have "finite (available_dispatch_instance_set s - {i})" using finE by simp
    ultimately have "card (instance_id_set s - {i}) \<le> card (available_dispatch_instance_set s - {i})"
      by (rule card_mono[rotated])
    moreover have "card (available_dispatch_instance_set s - {i}) < card (available_dispatch_instance_set s)"
      using finE iE by (rule card_Diff1_less)
    ultimately show False using h le by linarith
  qed
  have r: "fst (remove_instance nxt i s) = Inr ()"
    using iA iE cap free_ne by (simp add: remove_instance_def Let_def)
  have a: "available_dispatch_instance_set (snd (remove_instance nxt i s)) =
           (if c \<le> int (card (instance_id_set s - {i}))
            then insert (nxt (instance_id_set s - {i} - (available_dispatch_instance_set s - {i})))
                   (available_dispatch_instance_set s - {i})
            else available_dispatch_instance_set s - {i})"
    using iA iE cap free_ne by (simp add: remove_instance_sets)
  from r a show ?thesis by (rule conjI)
qed

text \<open>
  C3: removing a dispatchable instance backfills exactly when the capacity is enforced and
  the fleet after the removal is at least as large as it; with unbounded capacity no
  backfill occurs and the call returns. The code tests only
  \<open>num_instances \<ge> num_dispatch_instances\<close>, which always holds for \<open>c \<le> 0\<close>: removing the
  only instance raises \<^verbatim>\<open>StopIteration\<close> (the state is left with the instance removed),
  and with a non-dispatchable instance present that instance is backfilled.
\<close>

theorem unbounded_removal_attempts_backfill:
  assumes "c \<le> 0" and "set_iter_ok nxt"
  shows "remove_instance nxt ''a'' (run [Add ''a''] (new_scheduler p c)) =
           (Inl StopIteration, new_scheduler p c) \<and>
         fst (remove_instance nxt ''a'' (run [Add ''a'', Add ''decode_0''] (new_scheduler p c))) = Inr () \<and>
         available_dispatch_instance_set
           (snd (remove_instance nxt ''a'' (run [Add ''a'', Add ''decode_0''] (new_scheduler p c)))) =
           {''decode_0''}"
proof -
  have one: "remove_instance nxt ''a'' (run [Add ''a''] (new_scheduler p c)) =
           (Inl StopIteration, new_scheduler p c)"
    using assms(1) by (simp add: new_scheduler_def add_instance_def remove_instance_def Let_def
        sublist_Cons_right)
  have s: "run [Add ''a'', Add ''decode_0''] (new_scheduler p c) =
      \<lparr> dispatch_policy = p, prev_instance_idx = - 1, num_instances = 2,
        instance_id_set = {''decode_0'', ''a''}, available_dispatch_instance_set = {''a''},
        num_dispatch_instances = c, instance_info = [], sorted_instance_infos = None,
        num_requests = 0, instance_num_requests = [(''a'', 0)] \<rparr>"
    using assms(1) by (simp add: new_scheduler_def add_instance_def Let_def sublist_Cons_right)
  have "nxt {''decode_0''} \<in> {''decode_0''}" using assms(2) by (rule set_iter_okD) simp_all
  then have nx: "nxt {''decode_0''} = ''decode_0''" by simp
  have d1: "{''decode_0'', ''a''} - {''a''} = {''decode_0''}" by auto
  have two: "fst (remove_instance nxt ''a'' (run [Add ''a'', Add ''decode_0''] (new_scheduler p c))) = Inr () \<and>
         available_dispatch_instance_set
           (snd (remove_instance nxt ''a'' (run [Add ''a'', Add ''decode_0''] (new_scheduler p c)))) =
           {''decode_0''}"
    unfolding s using assms(1) by (simp add: remove_instance_def Let_def d1 nx)
  from one two show ?thesis by (rule conjI)
qed

theorem unbounded_removal_attempts_backfill_witness:
  "(0::int) \<le> 0 \<and> set_iter_ok Min \<and>
   remove_instance Min ''a'' (run [Add ''a''] (new_scheduler Balanced 0)) =
     (Inl StopIteration, new_scheduler Balanced 0) \<and>
   fst (remove_instance Min ''a'' (run [Add ''a'', Add ''decode_0''] (new_scheduler Balanced 0))) = Inr () \<and>
   available_dispatch_instance_set
     (snd (remove_instance Min ''a'' (run [Add ''a'', Add ''decode_0''] (new_scheduler Balanced 0)))) =
     {''decode_0''}"
proof -
  have h: "(0::int) \<le> 0" by simp
  have m: "set_iter_ok Min" by (simp add: set_iter_ok_def)
  note c = unbounded_removal_attempts_backfill[OF h m, of Balanced]
  from m c have "set_iter_ok Min \<and>
      remove_instance Min ''a'' (run [Add ''a''] (new_scheduler Balanced 0)) =
        (Inl StopIteration, new_scheduler Balanced 0) \<and>
      fst (remove_instance Min ''a'' (run [Add ''a'', Add ''decode_0''] (new_scheduler Balanced 0))) = Inr () \<and>
      available_dispatch_instance_set
        (snd (remove_instance Min ''a'' (run [Add ''a'', Add ''decode_0''] (new_scheduler Balanced 0)))) =
        {''decode_0''}"
    by (rule conjI)
  with h show ?thesis by (rule conjI)
qed

section \<open>Load policy and backfilled instances\<close>

text \<open>
  C8: under the Load policy, in a state whose dispatchable set is non-empty and covered by
  the snapshot with distinct load scores, \<open>dispatch\<close> returns the least loaded dispatchable
  instance. With capacity 1, after adding \<open>a\<close> and \<open>b\<close>, removing \<open>a\<close> (which backfills
  \<open>b\<close> without a counter) and a snapshot for \<open>b\<close>, the only dispatchable instance is
  \<open>b\<close>, the policy selects it, and \<open>dispatch\<close> raises \<^verbatim>\<open>KeyError\<close> at the counter
  increment instead of returning it.
\<close>

theorem load_dispatch_backfilled_instance_raises:
  assumes "set_iter_ok nxt"
  shows "available_dispatch_instance_set
           (run [Add ''a'', Add ''b'', Remove nxt ''a'',
                 Update [(''b'', \<lparr>instance_id = ''b'', num_waiting_requests = 0,
                                 instance_load_dispatch_scale = 1\<rparr>)]]
              (new_scheduler Load 1)) = {''b''} \<and>
         fst (dispatch r
           (run [Add ''a'', Add ''b'', Remove nxt ''a'',
                 Update [(''b'', \<lparr>instance_id = ''b'', num_waiting_requests = 0,
                                 instance_load_dispatch_scale = 1\<rparr>)]]
              (new_scheduler Load 1))) = Inl KeyError"
proof -
  have ne: "''a'' \<noteq> ''b''" by simp
  have nd: "\<not> sublist ''decode'' ''a''" by (simp add: sublist_Cons_right)
  let ?info = "\<lparr>instance_id = ''b'', num_waiting_requests = 0, instance_load_dispatch_scale = 1\<rparr>"
  have r: "run [Add ''a'', Add ''b'', Remove nxt ''a'', Update [(''b'', ?info)]] (new_scheduler Load 1) =
      update_instance_infos [(''b'', ?info)]
        (snd (remove_instance nxt ''a'' (run [Add ''a'', Add ''b''] (new_scheduler Load 1))))"
    by simp
  have s: "run [Add ''a'', Add ''b'', Remove nxt ''a'', Update [(''b'', ?info)]] (new_scheduler Load 1) =
      \<lparr> dispatch_policy = Load, prev_instance_idx = - 1, num_instances = 1,
        instance_id_set = {''b''}, available_dispatch_instance_set = {''b''},
        num_dispatch_instances = 1, instance_info = [(''b'', ?info)], sorted_instance_infos = None,
        num_requests = 0, instance_num_requests = [] \<rparr>"
    unfolding r two_instances_capacity_one[OF nd ne] remove_first_of_two[OF assms ne]
    by (simp add: update_instance_infos_def)
  show ?thesis
    unfolding s
    by (simp add: dispatch_def policy_dispatch_def Load_dispatch_def sort_instance_infos_def
        py_sorted_def Let_def)
qed

theorem load_dispatch_backfilled_instance_raises_witness:
  "set_iter_ok Min \<and>
   available_dispatch_instance_set
           (run [Add ''a'', Add ''b'', Remove Min ''a'',
                 Update [(''b'', \<lparr>instance_id = ''b'', num_waiting_requests = 0,
                                 instance_load_dispatch_scale = 1\<rparr>)]]
              (new_scheduler Load 1)) = {''b''} \<and>
   fst (dispatch 0
           (run [Add ''a'', Add ''b'', Remove Min ''a'',
                 Update [(''b'', \<lparr>instance_id = ''b'', num_waiting_requests = 0,
                                 instance_load_dispatch_scale = 1\<rparr>)]]
              (new_scheduler Load 1))) = Inl KeyError"
proof -
  have m: "set_iter_ok Min" by (simp add: set_iter_ok_def)
  from m load_dispatch_backfilled_instance_raises[OF m, of 0] show ?thesis by (rule conjI)
qed


section \<open>What the Load policy selects\<close>

text \<open>
  The sorted view is the snapshot's records of dispatchable instances in ascending order
  of the load score (a stable sort), the policy selects its first record, which is least
  loaded, and \<open>dispatch\<close> returns that id exactly when it has a counter.
\<close>

lemma sort_key_head_least:
  fixes f :: "'a \<Rightarrow> 'k::linorder"
  assumes "xs \<noteq> []"
  shows "\<exists>m rest. sort_key f xs = m # rest \<and> m \<in> set xs \<and> (\<forall>x\<in>set xs. f m \<le> f x)"
proof -
  have ne: "sort_key f xs \<noteq> []" using assms by (metis length_sort length_0_conv)
  then obtain m rest where mr: "sort_key f xs = m # rest" by (cases "sort_key f xs") auto
  have srt: "sorted (map f (sort_key f xs))" by (rule sorted_sort_key)
  have st: "set (sort_key f xs) = set xs" by simp
  have "m \<in> set xs" using mr st by (metis list.set_intros(1))
  moreover have "\<forall>x\<in>set xs. f m \<le> f x"
  proof
    fix x assume "x \<in> set xs"
    then have "x \<in> set (m # rest)" using mr st by simp
    then show "f m \<le> f x" using srt unfolding mr by auto
  qed
  ultimately show ?thesis using mr by blast
qed

lemma load_dispatch_selects_least:
  assumes pol: "dispatch_policy s = Load"
    and view: "view = filter (\<lambda>info. instance_id info \<in> available_dispatch_instance_set s)
                        (map snd (instance_info s))"
    and ne: "view \<noteq> []"
  shows "sorted_instance_infos (snd (dispatch r s)) =
           Some (sort_key instance_load_dispatch_scale view) \<and>
         (\<exists>m\<in>set view.
            (\<forall>x\<in>set view. instance_load_dispatch_scale m \<le> instance_load_dispatch_scale x) \<and>
            fst (dispatch r s) =
              (if map_of (instance_num_requests s) (instance_id m) = None
               then Inl KeyError else Inr (instance_id m)))"
proof -
  obtain m rest where mr: "sort_key instance_load_dispatch_scale view = m # rest"
    and min: "m \<in> set view"
    and least: "\<forall>x\<in>set view. instance_load_dispatch_scale m \<le> instance_load_dispatch_scale x"
    using sort_key_head_least[OF ne, of instance_load_dispatch_scale] by (elim exE conjE)
  have sv: "sorted_instance_infos (snd (dispatch r s)) =
           Some (sort_key instance_load_dispatch_scale view)"
    using pol mr unfolding view
    by (simp add: dispatch_def policy_dispatch_def Load_dispatch_def sort_instance_infos_def
        py_sorted_def Let_def split: option.splits)
  have out: "fst (dispatch r s) =
              (if map_of (instance_num_requests s) (instance_id m) = None
               then Inl KeyError else Inr (instance_id m))"
    using pol mr unfolding view
    by (simp add: dispatch_def policy_dispatch_def Load_dispatch_def sort_instance_infos_def
        py_sorted_def Let_def split: option.splits)
  from min least out have "\<exists>m\<in>set view.
            (\<forall>x\<in>set view. instance_load_dispatch_scale m \<le> instance_load_dispatch_scale x) \<and>
            fst (dispatch r s) =
              (if map_of (instance_num_requests s) (instance_id m) = None
               then Inl KeyError else Inr (instance_id m))"
    by (intro bexI[of _ m] conjI)
  with sv show ?thesis by (rule conjI)
qed

section \<open>Removal of an unknown instance\<close>

text \<open>
  C6: for every scheduler state and every id that is not in \<open>instance_id_set\<close>,
  \<open>remove_instance\<close> raises (the \<^verbatim>\<open>KeyError\<close> of \<^verbatim>\<open>set.remove\<close>, which the spec calls
  InstanceNotFoundError) and the whole state, every field of it, is as before the call.
\<close>

theorem remove_unknown_instance_fails_unchanged:
  "i \<notin> instance_id_set s \<Longrightarrow> remove_instance nxt i s = (Inl KeyError, s)"
  by (simp add: remove_instance_def)

theorem remove_unknown_instance_fails_unchanged_witness:
  "''b'' \<notin> instance_id_set (add_instance ''a'' (new_scheduler Balanced 2)) \<and>
   remove_instance Min ''b'' (add_instance ''a'' (new_scheduler Balanced 2)) =
     (Inl KeyError, add_instance ''a'' (new_scheduler Balanced 2))"
proof -
  have h: "''b'' \<notin> instance_id_set (add_instance ''a'' (new_scheduler Balanced 2))"
    by (simp add: add_instance_def new_scheduler_def Let_def)
  from h remove_unknown_instance_fails_unchanged[OF h, of Min] show ?thesis by (rule conjI)
qed

section \<open>Negated thresholds\<close>

text \<open>
  C10: the constructor of the global scheduler configuration stores the three thresholds
  negated (the migrate-out threshold under the name \<open>migrate_out_load_threshold\<close>) and
  every other argument unchanged.
\<close>

theorem config_thresholds_negated:
  "GlobalSchedulerConfig_init ii lm dp nd pm mo ed sp su sd pd mb =
     \<lparr> cfg_initial_instances = ii,
       cfg_load_metric = lm,
       cfg_dispatch_policy = dp,
       cfg_pair_migration_policy = pm,
       cfg_migrate_out_load_threshold = - mo,
       cfg_enable_defrag = ed,
       cfg_scaling_policy = sp,
       cfg_scale_up_threshold = - su,
       cfg_scale_down_threshold = - sd,
       cfg_enable_pd_disagg = pd,
       cfg_num_dispatch_instances = nd,
       cfg_migration_backend = mb \<rparr>"
  by (simp add: GlobalSchedulerConfig_init_def)

end
